theory Spec2Isabelle
  imports Main
begin

section \<open>FinLab documentation server: the query engine and the request dispatcher\<close>

text \<open>
  A shallow embedding of \<^verbatim>\<open>src/workers/src/index.ts\<close>: the four tool implementations
  (\<^verbatim>\<open>listDocuments\<close>, \<^verbatim>\<open>getDocument\<close>, \<^verbatim>\<open>searchDocs\<close>, \<^verbatim>\<open>getFactorExamples\<close>), the tool
  dispatch \<^verbatim>\<open>handleToolCall\<close> and the method dispatch \<^verbatim>\<open>handleMcpRequest\<close>.

  Scope of the model.
  \<^item> A JavaScript string is a \<^typ>\<open>string\<close>, one \<^typ>\<open>char\<close> per code unit; the text is ASCII, so
    \<^verbatim>\<open>toLowerCase\<close> maps \<^verbatim>\<open>A..Z\<close> to \<^verbatim>\<open>a..z\<close> and white space is the six ASCII
    white-space characters.
  \<^item> The constant \<^verbatim>\<open>DOCS\<close> is imported from the module \<^verbatim>\<open>./docs\<close>, whose text is not
    modelled. It is a parameter of every function here: the list of the object's own
    entries (name, text), in the order \<^verbatim>\<open>Object.entries\<close> yields them. Properties inherited
    from a prototype are not part of the model.
  \<^item> A value of TypeScript type \<^verbatim>\<open>unknown\<close> is a primitive JSON value or \<^verbatim>\<open>undefined\<close>;
    numbers are integers that JavaScript prints in plain decimal.
  \<^item> A thrown exception is the left summand of the result.
\<close>

subsection \<open>Strings\<close>

text \<open>The apostrophe, which a string literal of HOL cannot hold.\<close>

definition QUOTE :: char where
  "QUOTE = CHR 0x27"

text \<open>\<^verbatim>\<open>String.prototype.toLowerCase\<close>, on ASCII text.\<close>

definition lowerChar :: "char \<Rightarrow> char" where
  "lowerChar c =
     (let n = (of_char c :: nat) in if 65 \<le> n \<and> n \<le> 90 then char_of (n + 32) else c)"

definition toLowerCase :: "string \<Rightarrow> string" where
  "toLowerCase s = map lowerChar s"

text \<open>\<^verbatim>\<open>s.startsWith(q)\<close>: the reading of the separator at the current position in \<^verbatim>\<open>split\<close>
  and of the pattern in \<^verbatim>\<open>includes\<close>.\<close>

fun startsWith :: "string \<Rightarrow> string \<Rightarrow> bool" where
  "startsWith s [] = True"
| "startsWith [] (q # qs) = False"
| "startsWith (c # cs) (q # qs) = (c = q \<and> startsWith cs qs)"

text \<open>\<^verbatim>\<open>s.includes(q)\<close>: \<open>q\<close> occurs in \<open>s\<close> at some position.\<close>

fun includes_str :: "string \<Rightarrow> string \<Rightarrow> bool" where
  "includes_str [] q = (q = [])"
| "includes_str (c # cs) q = (startsWith (c # cs) q \<or> includes_str cs q)"

text \<open>\<^verbatim>\<open>s.split(sep)\<close>: cut at every occurrence of the separator, left to right, without
  overlaps; \<open>cur\<close> is the piece being read. With the empty separator JavaScript splits into
  single code units.\<close>

function splitFrom :: "string \<Rightarrow> string \<Rightarrow> string \<Rightarrow> string list" where
  "splitFrom sep cur s =
     (if sep \<noteq> [] \<and> startsWith s sep then cur # splitFrom sep [] (drop (length sep) s)
      else (case s of [] \<Rightarrow> [cur] | c # cs \<Rightarrow> splitFrom sep (cur @ [c]) cs))"
  by pat_completeness auto
termination
proof (relation "measure (\<lambda>(sep, cur, s). length s)")
  show "wf (measure (\<lambda>(sep, cur, s). length s))"
    by simp
next
  fix sep cur s :: string
  assume "sep \<noteq> [] \<and> startsWith s sep"
  then have "s \<noteq> []"
    by (cases s; cases sep) auto
  with \<open>sep \<noteq> [] \<and> startsWith s sep\<close>
  show "((sep, [], drop (length sep) s), (sep, cur, s)) \<in> measure (\<lambda>(sep, cur, s). length s)"
    by simp
next
  fix sep cur s :: string and c :: char and cs :: string
  assume "s = c # cs"
  then show "((sep, cur @ [c], cs), (sep, cur, s)) \<in> measure (\<lambda>(sep, cur, s). length s)"
    by simp
qed

declare splitFrom.simps [simp del]

definition split :: "string \<Rightarrow> string \<Rightarrow> string list" where
  "split s sep = (if sep = [] then map (\<lambda>c. [c]) s else splitFrom sep [] s)"

text \<open>\<^verbatim>\<open>xs.join(sep)\<close>.\<close>

fun join :: "string \<Rightarrow> string list \<Rightarrow> string" where
  "join sep [] = []"
| "join sep [x] = x"
| "join sep (x # y # ys) = x @ sep @ join sep (y # ys)"

text \<open>\<^verbatim>\<open>xs.slice(start, end)\<close> for \<open>0 \<le> start\<close> and \<open>0 \<le> end\<close>, the only way the source
  calls it.\<close>

definition slice :: "'a list \<Rightarrow> nat \<Rightarrow> nat \<Rightarrow> 'a list" where
  "slice xs start end = take (end - start) (drop start xs)"

text \<open>A number in a template literal: the decimal digits of a natural number.\<close>

function showNat :: "nat \<Rightarrow> string" where
  "showNat n = (if n < 10 then [char_of (48 + n)] else showNat (n div 10) @ [char_of (48 + n mod 10)])"
  by pat_completeness auto
termination
  by (relation "measure (\<lambda>n. n)") auto

declare showNat.simps [simp del]

definition showInt :: "int \<Rightarrow> string" where
  "showInt i = (if i < 0 then CHR ''-'' # showNat (nat (- i)) else showNat (nat i))"

text \<open>\<^verbatim>\<open>String.prototype.trim\<close> and the white space of \<^verbatim>\<open>\s\<close>, on ASCII text.\<close>

definition isSpace :: "char \<Rightarrow> bool" where
  "isSpace c = (c \<in> set [CHR 0x09, CHR 0x0A, CHR 0x0B, CHR 0x0C, CHR 0x0D, CHR 0x20])"

definition trim :: "string \<Rightarrow> string" where
  "trim s = rev (dropWhile isSpace (rev (dropWhile isSpace s)))"

subsection \<open>Values of type \<^verbatim>\<open>unknown\<close>\<close>

datatype jsval = JUndefined | JNull | JBool bool | JNum int | JStr string

text \<open>The abstract operation ToString, as a template literal and a property key apply it.\<close>

fun toString :: "jsval \<Rightarrow> string" where
  "toString JUndefined = ''undefined''"
| "toString JNull = ''null''"
| "toString (JBool b) = (if b then ''true'' else ''false'')"
| "toString (JNum i) = showInt i"
| "toString (JStr s) = s"

text \<open>Truthiness, as \<^verbatim>\<open>||\<close> and \<^verbatim>\<open>!\<close> read it.\<close>

fun truthy :: "jsval \<Rightarrow> bool" where
  "truthy JUndefined = False"
| "truthy JNull = False"
| "truthy (JBool b) = b"
| "truthy (JNum i) = (i \<noteq> 0)"
| "truthy (JStr s) = (s \<noteq> [])"

text \<open>\<^verbatim>\<open>typeof v === 'string'\<close>: the values on which \<^verbatim>\<open>toLowerCase\<close> can be called.\<close>

fun isString :: "jsval \<Rightarrow> bool" where
  "isString (JStr s) = True"
| "isString v = False"

text \<open>Reading a property of an argument object: \<^verbatim>\<open>undefined\<close> when it is not there.\<close>

definition getProp :: "(string \<rightharpoonup> jsval) \<Rightarrow> string \<Rightarrow> jsval" where
  "getProp obj k = (case obj k of None \<Rightarrow> JUndefined | Some v \<Rightarrow> v)"

text \<open>The one exception the code can raise: a method call on a value that has no such method.\<close>

datatype js_error = TypeError

subsection \<open>The document store\<close>

type_synonym docs = "(string \<times> string) list"

text \<open>\<^verbatim>\<open>Object.keys(DOCS)\<close>, \<^verbatim>\<open>DOCS[name]\<close> and \<^verbatim>\<open>name in DOCS\<close>.\<close>

definition keys :: "docs \<Rightarrow> string list" where
  "keys DOCS = map fst DOCS"

definition lookup :: "docs \<Rightarrow> string \<Rightarrow> string option" where
  "lookup DOCS name = map_of DOCS name"

definition has :: "docs \<Rightarrow> string \<Rightarrow> bool" where
  "has DOCS name = (lookup DOCS name \<noteq> None)"

subsection \<open>Tool implementations\<close>

text \<open>\<^verbatim>\<open>listDocuments\<close>. The synopsis of a document is its first line with a non-empty
  \<^verbatim>\<open>trim()\<close>, with \<^verbatim>\<open>/^#+\s*/\<close> removed (nothing is removed unless the line starts with
  \<^verbatim>\<open>#\<close>) and trimmed; the empty string when there is no such line.\<close>

definition stripHeading :: "string \<Rightarrow> string" where
  "stripHeading l =
     (case l of
        [] \<Rightarrow> []
      | c # cs \<Rightarrow> if c = CHR ''#'' then dropWhile isSpace (dropWhile (\<lambda>d. d = CHR ''#'') l) else l)"

definition firstLine :: "string \<Rightarrow> string" where
  "firstLine content =
     (case List.find (\<lambda>l. trim l \<noteq> []) (split content ''\<newline>'') of
        None \<Rightarrow> []
      | Some l \<Rightarrow> trim (stripHeading l))"

definition listDocuments :: "docs \<Rightarrow> string" where
  "listDocuments DOCS =
     (let docs = map (\<lambda>(name, content). ''- **'' @ name @ ''**: '' @ firstLine content) DOCS
      in ''## Available FinLab Documents'' @ ''\<newline>\<newline>'' @ join ''\<newline>'' docs)"

text \<open>\<^verbatim>\<open>getDocument\<close>.\<close>

definition getDocument :: "docs \<Rightarrow> string \<Rightarrow> string" where
  "getDocument DOCS docName =
     (if has DOCS docName then the (lookup DOCS docName)
      else ''Document '' @ [QUOTE] @ docName @ [QUOTE] @ '' not found.'' @ ''\<newline>\<newline>'' @
           ''Available documents: '' @ join '', '' (keys DOCS))"

text \<open>\<^verbatim>\<open>searchDocs\<close>. An element of \<^verbatim>\<open>results\<close>:\<close>

record hit =
  hit_file :: string
  hit_line :: nat
  hit_match :: string

text \<open>The inner loop over the lines of one document, from index \<open>i\<close>; \<^verbatim>\<open>results.push\<close>
  appends.\<close>

function scanLines :: "string \<Rightarrow> string list \<Rightarrow> string \<Rightarrow> nat \<Rightarrow> hit list \<Rightarrow> hit list" where
  "scanLines name lines queryLower i results =
     (if i < length lines then
        scanLines name lines queryLower (i + 1)
          (if includes_str (toLowerCase (lines ! i)) queryLower then
             (let start = nat (max 0 (int i - 2));
                  end = min (length lines) (i + 6)
              in results @ [\<lparr>hit_file = name, hit_line = i + 1, hit_match = join ''\<newline>'' (slice lines start end)\<rparr>])
           else results)
      else results)"
  by pat_completeness auto
termination
  by (relation "measure (\<lambda>(name, lines, queryLower, i, results). length lines - i)") auto

declare scanLines.simps [simp del]

text \<open>The outer loop over \<^verbatim>\<open>Object.entries(DOCS)\<close>.\<close>

fun scanDocs :: "docs \<Rightarrow> string \<Rightarrow> hit list \<Rightarrow> hit list" where
  "scanDocs [] queryLower results = results"
| "scanDocs ((name, content) # rest) queryLower results =
     (if \<not> includes_str (toLowerCase content) queryLower then scanDocs rest queryLower results
      else scanDocs rest queryLower (scanLines name (split content ''\<newline>'') queryLower 0 results))"

text \<open>The value of \<^verbatim>\<open>results\<close> after the loops.\<close>

definition searchResults :: "docs \<Rightarrow> string \<Rightarrow> hit list" where
  "searchResults DOCS query = scanDocs DOCS (toLowerCase query) []"

definition renderHit :: "hit \<Rightarrow> string" where
  "renderHit r =
     ''### '' @ hit_file r @ '' (line '' @ showNat (hit_line r) @ '')\<newline>```\<newline>'' @
     hit_match r @ ''\<newline>```\<newline>\<newline>''"

text \<open>The rendering loop: \<^verbatim>\<open>output += ...\<close> for each hit.\<close>

fun renderAll :: "hit list \<Rightarrow> string \<Rightarrow> string" where
  "renderAll [] output = output"
| "renderAll (r # rs) output = renderAll rs (output @ renderHit r)"

definition searchDocs :: "docs \<Rightarrow> string \<Rightarrow> string" where
  "searchDocs DOCS query =
     (let results = searchResults DOCS query in
      if length results = 0 then ''No results found for '' @ [QUOTE] @ query @ [QUOTE]
      else renderAll (slice results 0 10) (''## Search Results: '' @ query @ ''\<newline>\<newline>''))"

text \<open>\<^verbatim>\<open>getFactorExamples\<close>. The parameter has a default, so \<^verbatim>\<open>undefined\<close> reads as
  \<^verbatim>\<open>'all'\<close>; its type annotation is not checked when the code runs, and a value that is
  not a string reaches \<^verbatim>\<open>factorType.toLowerCase()\<close> in the filter, which is called on the
  first section (\<^verbatim>\<open>split\<close> never returns the empty array).\<close>

definition getFactorExamples :: "docs \<Rightarrow> jsval \<Rightarrow> js_error + string" where
  "getFactorExamples DOCS factorType0 =
     (let factorType = (if factorType0 = JUndefined then JStr ''all'' else factorType0) in
      case lookup DOCS ''factor-examples'' of
        None \<Rightarrow> Inr ''factor-examples not found''
      | Some content \<Rightarrow>
          if content = [] then Inr ''factor-examples not found''
          else if factorType = JStr ''all'' then Inr content
          else (case factorType of
                  JStr f \<Rightarrow>
                    (let sections = split content ''\<newline>## '';
                         matching = filter (\<lambda>s. includes_str (toLowerCase s) (toLowerCase f)) sections
                     in if length matching = 0 then
                          Inr (''No examples found for factor type '' @ [QUOTE] @ f @ [QUOTE] @
                               ''. Try: value, momentum, technical, quality, ml'')
                        else Inr (join ''\<newline>\<newline>'' (map (\<lambda>s. ''## '' @ s) matching)))
                | _ \<Rightarrow> Inl TypeError))"

subsection \<open>Tool descriptors\<close>

record PropertySchema =
  prop_type :: string
  prop_description :: string
  prop_default :: "string option"

record InputSchema =
  schema_type :: string
  schema_properties :: "(string \<times> PropertySchema) list"
  schema_required :: "string list option"

record Tool =
  tool_name :: string
  tool_description :: string
  tool_inputSchema :: InputSchema

definition TOOLS :: "docs \<Rightarrow> Tool list" where
  "TOOLS DOCS =
     [\<lparr>tool_name = ''list_documents'',
       tool_description = ''List all available FinLab documentation files'',
       tool_inputSchema = \<lparr>schema_type = ''object'', schema_properties = [], schema_required = None\<rparr>\<rparr>,
      \<lparr>tool_name = ''get_document'',
       tool_description = ''Get the full content of a FinLab documentation file'',
       tool_inputSchema =
         \<lparr>schema_type = ''object'',
          schema_properties =
            [(''doc_name'',
              \<lparr>prop_type = ''string'',
               prop_description =
                 ''Name of the document (without .md extension). Available: '' @ join '', '' (keys DOCS),
               prop_default = None\<rparr>)],
          schema_required = Some [''doc_name'']\<rparr>\<rparr>,
      \<lparr>tool_name = ''search_finlab_docs'',
       tool_description = ''Search for a keyword or phrase in all FinLab documentation'',
       tool_inputSchema =
         \<lparr>schema_type = ''object'',
          schema_properties =
            [(''query'',
              \<lparr>prop_type = ''string'',
               prop_description = ''The search term to look for (case-insensitive)'',
               prop_default = None\<rparr>)],
          schema_required = Some [''query'']\<rparr>\<rparr>,
      \<lparr>tool_name = ''get_factor_examples'',
       tool_description = ''Get factor/strategy examples from the documentation'',
       tool_inputSchema =
         \<lparr>schema_type = ''object'',
          schema_properties =
            [(''factor_type'',
              \<lparr>prop_type = ''string'',
               prop_description = ''Type of factor: all, value, momentum, technical, quality, ml'',
               prop_default = Some ''all''\<rparr>)],
          schema_required = None\<rparr>\<rparr>]"

subsection \<open>Dispatch\<close>

text \<open>\<^verbatim>\<open>handleToolCall\<close>. The casts \<^verbatim>\<open>as string\<close> check nothing when the code runs:
  \<^item> \<^verbatim>\<open>getDocument\<close> uses its argument as a property key and in a template literal only,
    and both apply ToString;
  \<^item> \<^verbatim>\<open>searchDocs\<close> starts with \<^verbatim>\<open>query.toLowerCase()\<close>, which raises on a value that is
    not a string;
  \<^item> a tool name that is not a string matches no \<^verbatim>\<open>case\<close> and is printed by the default
    branch.\<close>

definition handleToolCall :: "docs \<Rightarrow> jsval \<Rightarrow> (string \<rightharpoonup> jsval) \<Rightarrow> js_error + string" where
  "handleToolCall DOCS name args =
     (if name = JStr ''list_documents'' then Inr (listDocuments DOCS)
      else if name = JStr ''get_document'' then
        Inr (getDocument DOCS (toString (getProp args ''doc_name'')))
      else if name = JStr ''search_finlab_docs'' then
        (case getProp args ''query'' of
           JStr query \<Rightarrow> Inr (searchDocs DOCS query)
         | _ \<Rightarrow> Inl TypeError)
      else if name = JStr ''get_factor_examples'' then
        (let factor_type = getProp args ''factor_type''
         in getFactorExamples DOCS (if truthy factor_type then factor_type else JStr ''all''))
      else Inr (''Unknown tool: '' @ toString name))"

text \<open>The envelopes. The correlation identifier is copied and never inspected, so its type
  is a parameter. \<^verbatim>\<open>params\<close> is optional; when present it is an object whose \<^verbatim>\<open>name\<close> may
  be any value and whose \<^verbatim>\<open>arguments\<close>, when an object, maps property names to values
  (\<open>None\<close> stands for an absent or falsy \<^verbatim>\<open>arguments\<close>, which the code replaces by \<^verbatim>\<open>{}\<close>).\<close>

record McpParams =
  params_name :: jsval
  params_arguments :: "(string \<rightharpoonup> jsval) option"

record 'i McpRequest =
  req_id :: 'i
  req_method :: string
  req_params :: "McpParams option"

record McpError =
  code :: int
  message :: string

record Content =
  content_type :: string
  content_text :: string

text \<open>The three shapes of \<^verbatim>\<open>result\<close>: protocol version, server name, server version and
  the names of the declared capabilities; the tool descriptors; the content list.\<close>

datatype McpResult =
    InitializeResult string string string "string list"
  | ToolsListResult "Tool list"
  | ToolCallResult "Content list"

record 'i McpResponse =
  resp_jsonrpc :: string
  resp_id :: 'i
  resp_result :: "McpResult option"
  resp_error :: "McpError option"

text \<open>\<^verbatim>\<open>handleMcpRequest\<close>. Reading \<^verbatim>\<open>params.name\<close> when \<^verbatim>\<open>params\<close> is \<^verbatim>\<open>undefined\<close>
  raises, and an exception of \<^verbatim>\<open>handleToolCall\<close> passes through.\<close>

definition handleMcpRequest :: "docs \<Rightarrow> 'i McpRequest \<Rightarrow> js_error + 'i McpResponse" where
  "handleMcpRequest DOCS request =
     (let id = req_id request; method = req_method request; params = req_params request in
      if method = ''initialize'' then
        Inr \<lparr>resp_jsonrpc = ''2.0'', resp_id = id,
             resp_result = Some (InitializeResult ''2024-11-05'' ''finlab-docs'' ''1.0.0'' [''tools'']),
             resp_error = None\<rparr>
      else if method = ''tools/list'' then
        Inr \<lparr>resp_jsonrpc = ''2.0'', resp_id = id,
             resp_result = Some (ToolsListResult (TOOLS DOCS)),
             resp_error = None\<rparr>
      else if method = ''tools/call'' then
        (case params of
           None \<Rightarrow> Inl TypeError
         | Some p \<Rightarrow>
             (let toolName = params_name p;
                  toolArgs = (case params_arguments p of None \<Rightarrow> Map.empty | Some a \<Rightarrow> a)
              in case handleToolCall DOCS toolName toolArgs of
                   Inl e \<Rightarrow> Inl e
                 | Inr text \<Rightarrow>
                     Inr \<lparr>resp_jsonrpc = ''2.0'', resp_id = id,
                          resp_result = Some (ToolCallResult [\<lparr>content_type = ''text'', content_text = text\<rparr>]),
                          resp_error = None\<rparr>))
      else
        Inr \<lparr>resp_jsonrpc = ''2.0'', resp_id = id, resp_result = None,
             resp_error = Some \<lparr>code = - 32601, message = ''Method not found: '' @ method\<rparr>\<rparr>)"

subsection \<open>Notions of the specification\<close>

text \<open>These three definitions follow the words of the specification, not the code; the
  theorems below compare the code with them. The 0-based indices of the lines that match a
  query:\<close>

definition matchingLines :: "string list \<Rightarrow> string \<Rightarrow> nat list" where
  "matchingLines lines query =
     filter (\<lambda>i. includes_str (toLowerCase (lines ! i)) (toLowerCase query)) [0..<length lines]"

text \<open>The lines with indices in \<open>[max(0, i - 2), min(len, i + 6))\<close>:\<close>

definition contextWindow :: "string list \<Rightarrow> nat \<Rightarrow> string list" where
  "contextWindow lines i =
     map (\<lambda>j. lines ! j) [(if i < 2 then 0 else i - 2)..<min (length lines) (i + 6)]"

text \<open>One search hit for every matching line of a document, in line order:\<close>

definition hitsOfDoc :: "string \<Rightarrow> string \<times> string \<Rightarrow> hit list" where
  "hitsOfDoc query doc =
     (let lines = split (snd doc) ''\<newline>''
      in map (\<lambda>i. \<lparr>hit_file = fst doc, hit_line = i + 1,
                     hit_match = join ''\<newline>'' (contextWindow lines i)\<rparr>)
           (matchingLines lines query))"

section \<open>Properties of the string operations\<close>

lemma startsWith_iff: "startsWith s q \<longleftrightarrow> (\<exists>r. s = q @ r)"
  by (induction s q rule: startsWith.induct) auto

lemma includes_str_iff: "includes_str s q \<longleftrightarrow> (\<exists>ps ss. s = ps @ q @ ss)"
proof (induction s)
  case Nil
  then show ?case by auto
next
  case (Cons c cs)
  show ?case
  proof
    assume "includes_str (c # cs) q"
    then consider "startsWith (c # cs) q" | "includes_str cs q"
      by auto
    then show "\<exists>ps ss. c # cs = ps @ q @ ss"
    proof cases
      case 1
      then obtain r where "c # cs = q @ r"
        by (auto simp: startsWith_iff)
      then have "c # cs = [] @ q @ r"
        by simp
      then show ?thesis
        by blast
    next
      case 2
      then obtain ps ss where "cs = ps @ q @ ss"
        using Cons.IH by auto
      then have "c # cs = (c # ps) @ q @ ss"
        by simp
      then show ?thesis
        by blast
    qed
  next
    assume "\<exists>ps ss. c # cs = ps @ q @ ss"
    then obtain ps ss where eq: "c # cs = ps @ q @ ss"
      by auto
    show "includes_str (c # cs) q"
    proof (cases ps)
      case Nil
      with eq have "startsWith (c # cs) q"
        by (auto simp: startsWith_iff)
      then show ?thesis
        by simp
    next
      case (Cons p ps')
      with eq have "cs = ps' @ q @ ss"
        by simp
      then have "includes_str cs q"
        using Cons.IH by auto
      then show ?thesis
        by simp
    qed
  qed
qed

lemma includes_str_set: "includes_str s q \<Longrightarrow> set q \<subseteq> set s"
  by (auto simp: includes_str_iff)

lemma includes_str_append: "includes_str b q \<Longrightarrow> includes_str (a @ b @ c) q"
proof -
  assume "includes_str b q"
  then obtain ps ss where "b = ps @ q @ ss"
    by (auto simp: includes_str_iff)
  then have "a @ b @ c = (a @ ps) @ q @ (ss @ c)"
    by simp
  then show ?thesis
    unfolding includes_str_iff by blast
qed

lemma splitFrom_sublist:
  "l \<in> set (splitFrom sep cur s) \<Longrightarrow> \<exists>ps ss. cur @ s = ps @ l @ ss"
proof (induction sep cur s rule: splitFrom.induct)
  case (1 sep cur s)
  show ?case
  proof (cases "sep \<noteq> [] \<and> startsWith s sep")
    case True
    then obtain r where s: "s = sep @ r"
      by (auto simp: startsWith_iff)
    from True 1(3) have "l = cur \<or> l \<in> set (splitFrom sep [] (drop (length sep) s))"
      by (subst (asm) splitFrom.simps) auto
    then show ?thesis
    proof
      assume "l = cur"
      then have "cur @ s = [] @ l @ s" by simp
      then show ?thesis by blast
    next
      assume "l \<in> set (splitFrom sep [] (drop (length sep) s))"
      then obtain ps ss where "[] @ drop (length sep) s = ps @ l @ ss"
        using 1(1)[OF True] by blast
      with s have "cur @ s = (cur @ sep @ ps) @ l @ ss"
        by simp
      then show ?thesis by blast
    qed
  next
    case False
    show ?thesis
    proof (cases s)
      case Nil
      with False 1(3) have "l = cur"
        by (subst (asm) splitFrom.simps) auto
      with Nil have "cur @ s = [] @ l @ []" by simp
      then show ?thesis by blast
    next
      case (Cons c cs)
      with False 1(3) have "l \<in> set (splitFrom sep (cur @ [c]) cs)"
        by (subst (asm) splitFrom.simps) auto
      then obtain ps ss where "(cur @ [c]) @ cs = ps @ l @ ss"
        using 1(2)[OF False Cons] by blast
      with Cons show ?thesis by auto
    qed
  qed
qed

lemma splitFrom_no_sep_char:
  "l \<in> set (splitFrom [d] cur s) \<Longrightarrow> d \<notin> set cur \<Longrightarrow> d \<notin> set l"
proof (induction "[d]" cur s rule: splitFrom.induct)
  case (1 cur s)
  show ?case
  proof (cases "startsWith s [d]")
    case True
    with 1(3) have "l = cur \<or> l \<in> set (splitFrom [d] [] (drop (length [d]) s))"
      by (subst (asm) splitFrom.simps) auto
    then show ?thesis
      using 1(1) 1(4) True by auto
  next
    case False
    show ?thesis
    proof (cases s)
      case Nil
      with False 1(3) have "l = cur"
        by (subst (asm) splitFrom.simps) auto
      with 1(4) show ?thesis by simp
    next
      case (Cons c cs)
      with False have "c \<noteq> d"
        by auto
      from Cons False 1(3) have "l \<in> set (splitFrom [d] (cur @ [c]) cs)"
        by (subst (asm) splitFrom.simps) auto
      then show ?thesis
        using 1(2)[of c cs] False Cons 1(4) \<open>c \<noteq> d\<close> by auto
    qed
  qed
qed

lemma splitFrom_not_Nil: "splitFrom sep cur s \<noteq> []"
proof (induction sep cur s rule: splitFrom.induct)
  case (1 sep cur s)
  show ?case
    by (subst splitFrom.simps) (use 1 in \<open>auto split: list.splits\<close>)
qed

lemma split_not_Nil: "sep \<noteq> [] \<Longrightarrow> split s sep \<noteq> []"
  by (simp add: split_def splitFrom_not_Nil)


section \<open>What the search loops compute\<close>

lemma slice_upt:
  assumes "b \<le> length xs"
  shows "slice xs a b = map (\<lambda>j. xs ! j) [a..<b]"
proof (rule nth_equalityI)
  show "length (slice xs a b) = length (map (\<lambda>j. xs ! j) [a..<b])"
    using assms by (simp add: slice_def)
next
  fix k
  assume "k < length (slice xs a b)"
  then have k: "k < b - a" and ak: "a + k < length xs"
    using assms by (simp_all add: slice_def)
  have "slice xs a b ! k = xs ! (a + k)"
    using k ak by (simp add: slice_def)
  moreover have "map (\<lambda>j. xs ! j) [a..<b] ! k = xs ! (a + k)"
    using k by simp
  ultimately show "slice xs a b ! k = map (\<lambda>j. xs ! j) [a..<b] ! k"
    by simp
qed

lemma slice_window:
  "slice lines (nat (max 0 (int i - 2))) (min (length lines) (i + 6)) = contextWindow lines i"
proof -
  have "nat (max 0 (int i - 2)) = (if i < 2 then 0 else i - 2)"
    by auto
  then show ?thesis
    unfolding contextWindow_def by (simp only: slice_upt min.cobounded1)
qed

lemma scanLines_eq:
  "scanLines name lines queryLower i results =
     results @
     map (\<lambda>j. \<lparr>hit_file = name, hit_line = j + 1,
                  hit_match = join ''\<newline>'' (contextWindow lines j)\<rparr>)
       (filter (\<lambda>j. includes_str (toLowerCase (lines ! j)) queryLower) [i..<length lines])"
proof (induction name lines queryLower i results rule: scanLines.induct)
  case (1 name lines queryLower i results)
  show ?case
  proof (cases "i < length lines")
    case True
    then have upt: "[i..<length lines] = i # [i + 1..<length lines]"
      by (simp add: upt_conv_Cons)
    show ?thesis
    proof (cases "includes_str (toLowerCase (lines ! i)) queryLower")
      case hit: True
      from 1[OF True] hit show ?thesis
        by (subst scanLines.simps) (simp add: True upt slice_window Let_def del: upt_Suc)
    next
      case miss: False
      from 1[OF True] miss show ?thesis
        by (subst scanLines.simps) (simp add: True upt del: upt_Suc)
    qed
  next
    case False
    then show ?thesis
      by (subst scanLines.simps) simp
  qed
qed

lemma line_in_content:
  assumes "i < length (split content ''\<newline>'')"
    and "includes_str (toLowerCase (split content ''\<newline>'' ! i)) queryLower"
  shows "includes_str (toLowerCase content) queryLower"
proof -
  let ?l = "split content ''\<newline>'' ! i"
  have "?l \<in> set (splitFrom ''\<newline>'' [] content)"
    using assms(1) by (simp add: split_def)
  then obtain ps ss where "[] @ content = ps @ ?l @ ss"
    using splitFrom_sublist by blast
  then have "toLowerCase content = toLowerCase (ps @ ?l @ ss)"
    by simp
  then have "toLowerCase content = toLowerCase ps @ toLowerCase ?l @ toLowerCase ss"
    by (simp only: toLowerCase_def map_append)
  then show ?thesis
    using assms(2) includes_str_append by simp
qed

lemma docHits_eq:
  "(if \<not> includes_str (toLowerCase content) (toLowerCase query) then results
    else scanLines name (split content ''\<newline>'') (toLowerCase query) 0 results) =
   results @ hitsOfDoc query (name, content)"
proof (cases "includes_str (toLowerCase content) (toLowerCase query)")
  case True
  then show ?thesis
    by (simp add: scanLines_eq hitsOfDoc_def matchingLines_def Let_def)
next
  case False
  then have "matchingLines (split content ''\<newline>'') query = []"
    unfolding matchingLines_def filter_empty_conv using line_in_content by auto
  with False show ?thesis
    by (simp add: hitsOfDoc_def Let_def)
qed

lemma scanDocs_eq:
  "scanDocs DOCS (toLowerCase query) results = results @ concat (map (hitsOfDoc query) DOCS)"
proof (induction DOCS arbitrary: results)
  case Nil
  then show ?case by simp
next
  case (Cons d DOCS)
  obtain name content where d: "d = (name, content)"
    by (cases d)
  have "scanDocs (d # DOCS) (toLowerCase query) results =
        scanDocs DOCS (toLowerCase query)
          (if \<not> includes_str (toLowerCase content) (toLowerCase query) then results
           else scanLines name (split content ''\<newline>'') (toLowerCase query) 0 results)"
    by (simp add: d)
  also have "\<dots> = (results @ hitsOfDoc query (name, content)) @ concat (map (hitsOfDoc query) DOCS)"
    unfolding docHits_eq Cons.IH ..
  finally show ?case
    by (simp add: d)
qed

lemma searchResults_eq: "searchResults DOCS query = concat (map (hitsOfDoc query) DOCS)"
  by (simp add: searchResults_def scanDocs_eq)

lemma renderAll_eq: "renderAll rs out = out @ concat (map renderHit rs)"
  by (induction rs arbitrary: out) auto

lemma searchDocs_eq:
  "searchDocs DOCS query =
     (if searchResults DOCS query = [] then ''No results found for '' @ [QUOTE] @ query @ [QUOTE]
      else ''## Search Results: '' @ query @ ''\<newline>\<newline>'' @
           concat (map renderHit (take 10 (searchResults DOCS query))))"
  by (simp add: searchDocs_def Let_def renderAll_eq slice_def)

lemma contextWindow_parts:
  assumes "i < length lines"
  shows "contextWindow lines i =
           map (\<lambda>j. lines ! j) [i - min i 2..<i] @ [lines ! i] @
           map (\<lambda>j. lines ! j) [i + 1..<i + 1 + min (length lines - 1 - i) 5]"
proof -
  define a b where "a = (if i < 2 then 0 else i - 2)" and "b = min (length lines) (i + 6)"
  have a: "a = i - min i 2" and ai: "a \<le> i"
    by (auto simp: a_def)
  have b: "b = i + 1 + min (length lines - 1 - i) 5" and ib: "i < b"
    using assms by (auto simp: b_def)
  have "[a..<i + (b - i)] = [a..<i] @ [i..<i + (b - i)]"
    using ai by (rule upt_add_eq_append)
  with ib have "[a..<b] = [a..<i] @ [i..<b]"
    by simp
  also have "[i..<b] = i # [i + 1..<b]"
    using ib by (simp add: upt_conv_Cons)
  finally have "map (\<lambda>j. lines ! j) [a..<b] =
      map (\<lambda>j. lines ! j) [a..<i] @ [lines ! i] @ map (\<lambda>j. lines ! j) [i + 1..<b]"
    by simp
  then show ?thesis
    unfolding contextWindow_def a_def [symmetric] b_def [symmetric] unfolding a b .
qed

lemma includes_strI: "s = ps @ q @ ss \<Longrightarrow> includes_str s q"
  unfolding includes_str_iff by blast

lemma includes_str_Nil: "includes_str s []"
  by (rule includes_strI[of s "[]" "[]" s]) simp

lemma matchingLines_empty_query: "matchingLines lines [] = [0..<length lines]"
  by (simp add: matchingLines_def toLowerCase_def includes_str_Nil)

lemma hitsOfDoc_empty_query: "hitsOfDoc [] d \<noteq> []"
proof -
  have "split (snd d) ''\<newline>'' \<noteq> []"
    by (rule split_not_Nil) simp
  then show ?thesis
    by (simp add: hitsOfDoc_def Let_def matchingLines_empty_query)
qed

lemma searchResults_empty_query: "searchResults DOCS [] = [] \<longleftrightarrow> DOCS = []"
  by (cases DOCS) (simp_all add: searchResults_eq hitsOfDoc_empty_query)

lemma lowerChar_idem: "lowerChar (lowerChar c) = lowerChar c"
proof (cases "65 \<le> (of_char c :: nat) \<and> (of_char c :: nat) \<le> 90")
  case True
  then have "(of_char (char_of (of_char c + 32 :: nat) :: char) :: nat) = of_char c + 32"
    by simp
  with True show ?thesis
    by (simp add: lowerChar_def Let_def)
next
  case False
  then have "lowerChar c = c"
    by (auto simp: lowerChar_def Let_def)
  then show ?thesis
    by simp
qed

lemma toLowerCase_idem: "toLowerCase (toLowerCase s) = toLowerCase s"
  by (simp add: toLowerCase_def lowerChar_idem)

lemma lowerChar_newline: "lowerChar CHR ''\<newline>'' = CHR ''\<newline>''"
  by (simp add: lowerChar_def)

lemma lowerChar_eq_newline: "lowerChar c = CHR ''\<newline>'' \<Longrightarrow> c = CHR ''\<newline>''"
proof (rule ccontr)
  assume eq: "lowerChar c = CHR ''\<newline>''" and ne: "c \<noteq> CHR ''\<newline>''"
  define n where "n = (of_char c :: nat)"
  from eq ne have range: "65 \<le> n" "n \<le> 90" and "char_of (n + 32) = CHR ''\<newline>''"
    by (auto simp: lowerChar_def n_def Let_def split: if_splits)
  then have "(of_char (char_of (n + 32) :: char) :: nat) = of_char CHR ''\<newline>''"
    by simp
  with range show False
    by simp
qed

lemma newline_toLowerCase: "CHR ''\<newline>'' \<in> set (toLowerCase s) \<longleftrightarrow> CHR ''\<newline>'' \<in> set s"
proof
  assume "CHR ''\<newline>'' \<in> set (toLowerCase s)"
  then obtain c where "c \<in> set s" and "lowerChar c = CHR ''\<newline>''"
    by (auto simp: toLowerCase_def)
  then show "CHR ''\<newline>'' \<in> set s"
    using lowerChar_eq_newline by blast
next
  assume "CHR ''\<newline>'' \<in> set s"
  then have "lowerChar CHR ''\<newline>'' \<in> set (toLowerCase s)"
    unfolding toLowerCase_def set_map by (rule imageI)
  then show "CHR ''\<newline>'' \<in> set (toLowerCase s)"
    by (simp only: lowerChar_newline)
qed

lemma lines_no_newline: "l \<in> set (split s ''\<newline>'') \<Longrightarrow> CHR ''\<newline>'' \<notin> set l"
  using splitFrom_no_sep_char[of l "CHR ''\<newline>''" "[]" s] by (simp add: split_def)

lemma matchingLines_newline_query:
  assumes "CHR ''\<newline>'' \<in> set query"
  shows "matchingLines (split s ''\<newline>'') query = []"
proof -
  have "\<not> includes_str (toLowerCase (split s ''\<newline>'' ! i)) (toLowerCase query)"
    if "i < length (split s ''\<newline>'')" for i
  proof
    assume "includes_str (toLowerCase (split s ''\<newline>'' ! i)) (toLowerCase query)"
    then have "set (toLowerCase query) \<subseteq> set (toLowerCase (split s ''\<newline>'' ! i))"
      by (rule includes_str_set)
    with assms have "CHR ''\<newline>'' \<in> set (split s ''\<newline>'' ! i)"
      using newline_toLowerCase by blast
    moreover have "split s ''\<newline>'' ! i \<in> set (split s ''\<newline>'')"
      using that by simp
    ultimately show False
      using lines_no_newline by blast
  qed
  then show ?thesis
    by (simp add: matchingLines_def filter_empty_conv)
qed

lemma searchResults_newline_query:
  "CHR ''\<newline>'' \<in> set query \<Longrightarrow> searchResults DOCS query = []"
  by (simp add: searchResults_eq hitsOfDoc_def Let_def matchingLines_newline_query)


lemma hitsOfDoc_file: "h \<in> set (hitsOfDoc query d) \<Longrightarrow> hit_file h = fst d"
  by (auto simp: hitsOfDoc_def Let_def)



lemma searchDocs_hits_ne_message:
  assumes "searchResults DOCS query \<noteq> []"
  shows "searchDocs DOCS query \<noteq> ''No results found for '' @ [QUOTE] @ query @ [QUOTE]"
proof -
  have "hd (searchDocs DOCS query) = CHR ''#''"
    using assms by (simp add: searchDocs_eq)
  moreover have "hd (''No results found for '' @ [QUOTE] @ query @ [QUOTE]) = CHR ''N''"
    by simp
  ultimately show ?thesis
    by auto
qed


section \<open>Properties of the example filter and of the dispatch\<close>


lemma isString_iff: "isString v \<longleftrightarrow> (\<exists>s. v = JStr s)"
  by (cases v) auto




lemma handleMcpRequest_unknown_method:
  assumes "req_method request \<noteq> ''initialize''" "req_method request \<noteq> ''tools/list''"
    "req_method request \<noteq> ''tools/call''"
  shows "handleMcpRequest DOCS request =
    Inr \<lparr>resp_jsonrpc = ''2.0'', resp_id = req_id request, resp_result = None,
         resp_error = Some \<lparr>code = - 32601, message = ''Method not found: '' @ req_method request\<rparr>\<rparr>"
  using assms by (simp add: handleMcpRequest_def Let_def)

lemma handleMcpRequest_tools_call:
  assumes "req_method request = ''tools/call''" "req_params request = Some p"
    and "handleToolCall DOCS (params_name p)
           (case params_arguments p of None \<Rightarrow> Map.empty | Some a \<Rightarrow> a) = Inr text"
  shows "handleMcpRequest DOCS request =
    Inr \<lparr>resp_jsonrpc = ''2.0'', resp_id = req_id request,
         resp_result = Some (ToolCallResult [\<lparr>content_type = ''text'', content_text = text\<rparr>]),
         resp_error = None\<rparr>"
  using assms by (simp add: handleMcpRequest_def Let_def)

lemma handleMcpRequest_result_or_error:
  assumes "handleMcpRequest DOCS request = Inr response"
  shows "resp_id response = req_id request \<and>
      (resp_result response = None) \<noteq> (resp_error response = None) \<and>
      (resp_error response \<noteq> None \<longleftrightarrow>
         req_method request \<notin> {''initialize'', ''tools/list'', ''tools/call''})"
proof -
  consider (init) "req_method request = ''initialize''"
    | (list) "req_method request = ''tools/list''"
    | (call) "req_method request = ''tools/call''"
    | (other) "req_method request \<noteq> ''initialize''" "req_method request \<noteq> ''tools/list''"
        "req_method request \<noteq> ''tools/call''"
    by blast
  then show ?thesis
  proof cases
    case init
    with assms show ?thesis
      by (auto simp: handleMcpRequest_def Let_def)
  next
    case list
    with assms show ?thesis
      by (auto simp: handleMcpRequest_def Let_def)
  next
    case call
    with assms show ?thesis
      by (auto simp: handleMcpRequest_def Let_def split: option.splits sum.splits)
  next
    case other
    with assms handleMcpRequest_unknown_method[OF other, of DOCS] show ?thesis
      by auto
  qed
qed

lemma handleMcpRequest_returns:
  assumes "req_method request \<noteq> ''tools/call''"
  shows "\<exists>response. handleMcpRequest DOCS request = Inr response"
  using assms by (simp add: handleMcpRequest_def Let_def)

section \<open>The claims\<close>

subsection \<open>Search and retrieval\<close>

text \<open>
  Claim C2, as the code has it. A search with zero hits returns the no-results message, which
  reports the original query string verbatim. The empty query is not such a search unless
  the document store is empty: the empty string occurs in every line, so every line of
  every document is a hit, and the no-results message is returned for the empty query
  exactly when there is no document.
\<close>

theorem search_no_hits_message:
  "(searchResults DOCS query = [] \<longrightarrow>
      searchDocs DOCS query = ''No results found for '' @ [QUOTE] @ query @ [QUOTE]) \<and>
   (searchResults DOCS [] = [] \<longleftrightarrow> DOCS = []) \<and>
   (searchDocs DOCS [] = ''No results found for '' @ [QUOTE] @ [] @ [QUOTE] \<longleftrightarrow> DOCS = [])"
proof (intro conjI impI)
  assume "searchResults DOCS query = []"
  then show "searchDocs DOCS query = ''No results found for '' @ [QUOTE] @ query @ [QUOTE]"
    by (simp add: searchDocs_eq)
next
  show "searchResults DOCS [] = [] \<longleftrightarrow> DOCS = []"
    by (rule searchResults_empty_query)
next
  show "searchDocs DOCS [] = ''No results found for '' @ [QUOTE] @ [] @ [QUOTE] \<longleftrightarrow> DOCS = []"
  proof
    assume "searchDocs DOCS [] = ''No results found for '' @ [QUOTE] @ [] @ [QUOTE]"
    then have "searchResults DOCS [] = []"
      using searchDocs_hits_ne_message[of DOCS "[]"] by blast
    then show "DOCS = []"
      by (simp only: searchResults_empty_query)
  next
    assume "DOCS = []"
    then have "searchResults DOCS [] = []"
      by (simp only: searchResults_empty_query)
    then show "searchDocs DOCS [] = ''No results found for '' @ [QUOTE] @ [] @ [QUOTE]"
      by (simp add: searchDocs_eq)
  qed
qed

text \<open>A query that occurs nowhere in a store of one document.\<close>

theorem search_no_hits_message_witness:
  "searchResults [(''a'', ''x'')] ''y'' = [] \<and>
   searchDocs [(''a'', ''x'')] ''y'' = ''No results found for '' @ [QUOTE] @ ''y'' @ [QUOTE]"
proof -
  have h: "searchResults [(''a'', ''x'')] ''y'' = []"
    by code_simp
  with search_no_hits_message[of "[(''a'', ''x'')]" "''y''"] show ?thesis
    by blast
qed

text \<open>The empty query over a store of one document of one line: the line is reported as a
  hit, and the result is not the no-results message.\<close>

theorem search_empty_query_counterexample:
  "searchDocs [(''a'', ''x'')] [] =
     ''## Search Results: \<newline>\<newline>### a (line 1)\<newline>```\<newline>x\<newline>```\<newline>\<newline>'' \<and>
   searchDocs [(''a'', ''x'')] [] \<noteq> ''No results found for '' @ [QUOTE] @ [] @ [QUOTE]"
  by code_simp

text \<open>
  Claim C5, as the code has it. The hits of a search are, document after document in
  iteration order, one hit for every matching line of the document, in line order, each
  with its own window (nothing is merged): the hit of the line with 0-based index \<open>i\<close>
  carries line number \<open>i + 1\<close> and the lines with indices in
  \<open>[max(0, i - 2), min(len, i + 6))\<close>. That window is up to 2 lines before the matching
  line, the matching line, and up to 5 lines after it, clipped at the bounds of the
  document. For the store that holds only document \<open>a\<close> with text
  \<^verbatim>\<open>line1\nMATCH\nline3\<close>, the query \<^verbatim>\<open>match\<close> yields exactly one hit: document
  \<open>a\<close>, line 2, window \<open>line1\<close>, \<open>MATCH\<close>, \<open>line3\<close>.
\<close>

theorem search_hit_windows:
  "searchResults DOCS query = concat (map (hitsOfDoc query) DOCS) \<and>
   map hit_line (hitsOfDoc query doc) =
     map (\<lambda>i. i + 1) (matchingLines (split (snd doc) ''\<newline>'') query) \<and>
   (i < length lines \<longrightarrow>
      contextWindow lines i =
        map (\<lambda>j. lines ! j) [i - min i 2..<i] @ [lines ! i] @
        map (\<lambda>j. lines ! j) [i + 1..<i + 1 + min (length lines - 1 - i) 5]) \<and>
   searchResults [(''a'', ''line1\<newline>MATCH\<newline>line3'')] ''match'' =
     [\<lparr>hit_file = ''a'', hit_line = 2, hit_match = join ''\<newline>'' [''line1'', ''MATCH'', ''line3'']\<rparr>]"
proof (intro conjI impI)
  show "searchResults DOCS query = concat (map (hitsOfDoc query) DOCS)"
    by (rule searchResults_eq)
next
  show "map hit_line (hitsOfDoc query doc) =
     map (\<lambda>i. i + 1) (matchingLines (split (snd doc) ''\<newline>'') query)"
    by (simp add: hitsOfDoc_def Let_def comp_def)
next
  assume "i < length lines"
  then show "contextWindow lines i =
        map (\<lambda>j. lines ! j) [i - min i 2..<i] @ [lines ! i] @
        map (\<lambda>j. lines ! j) [i + 1..<i + 1 + min (length lines - 1 - i) 5]"
    by (rule contextWindow_parts)
next
  show "searchResults [(''a'', ''line1\<newline>MATCH\<newline>line3'')] ''match'' =
     [\<lparr>hit_file = ''a'', hit_line = 2, hit_match = join ''\<newline>'' [''line1'', ''MATCH'', ''line3'']\<rparr>]"
    by code_simp
qed

text \<open>The window of the middle line of a document of three lines.\<close>

theorem search_hit_windows_witness:
  "(1::nat) < length [''line1'', ''MATCH'', ''line3''] \<and>
   contextWindow [''line1'', ''MATCH'', ''line3''] 1 = [''line1''] @ [''MATCH''] @ [''line3''] \<and>
   searchResults [(''a'', ''line1\<newline>MATCH\<newline>line3'')] ''match'' =
     concat (map (hitsOfDoc ''match'') [(''a'', ''line1\<newline>MATCH\<newline>line3'')])"
proof -
  have h: "(1::nat) < length [''line1'', ''MATCH'', ''line3'']"
    by simp
  have e: "map (\<lambda>j. [''line1'', ''MATCH'', ''line3''] ! j) [1 - min 1 2..<1] = [''line1'']"
    "[''line1'', ''MATCH'', ''line3''] ! 1 = ''MATCH''"
    "map (\<lambda>j. [''line1'', ''MATCH'', ''line3''] ! j)
       [1 + 1..<1 + 1 + min (length [''line1'', ''MATCH'', ''line3''] - 1 - 1) 5] = [''line3'']"
    by code_simp+
  from search_hit_windows[where DOCS = "[(''a'', ''line1\<newline>MATCH\<newline>line3'')]"
      and query = "''match''" and i = 1 and lines = "[''line1'', ''MATCH'', ''line3'']"] h
  show ?thesis
    unfolding e by blast
qed

text \<open>A document of seven lines whose first line matches: the window of the hit holds the
  matching line and the five lines after it, more than three lines of trailing context.\<close>

theorem search_trailing_context_counterexample:
  "searchResults [(''a'', ''m\<newline>1\<newline>2\<newline>3\<newline>4\<newline>5\<newline>6'')] ''m'' =
     [\<lparr>hit_file = ''a'', hit_line = 1, hit_match = ''m\<newline>1\<newline>2\<newline>3\<newline>4\<newline>5''\<rparr>] \<and>
   split (hit_match (hd (searchResults [(''a'', ''m\<newline>1\<newline>2\<newline>3\<newline>4\<newline>5\<newline>6'')] ''m''))) ''\<newline>'' =
     ''m'' # [''1'', ''2'', ''3'', ''4'', ''5''] \<and>
   \<not> length [''1'', ''2'', ''3'', ''4'', ''5''] \<le> (3::nat)"
  by code_simp





text \<open>
  Claim C8. Two queries with the same lowercasing yield the same hits, in the same order,
  over the same document store; in particular a query and its lowercasing do.
\<close>

theorem search_case_insensitive:
  "(toLowerCase q1 = toLowerCase q2 \<longrightarrow> searchResults DOCS q1 = searchResults DOCS q2) \<and>
   searchResults DOCS (toLowerCase query) = searchResults DOCS query"
proof
  show "toLowerCase q1 = toLowerCase q2 \<longrightarrow> searchResults DOCS q1 = searchResults DOCS q2"
    by (simp add: searchResults_def)
  show "searchResults DOCS (toLowerCase query) = searchResults DOCS query"
    by (simp only: searchResults_def toLowerCase_idem)
qed

text \<open>\<open>Momentum\<close> and \<open>momentum\<close>.\<close>

theorem search_case_insensitive_witness:
  "toLowerCase ''Momentum'' = toLowerCase ''momentum'' \<and>
   searchResults [(''a'', ''x\<newline>MOMENTUM factor'')] ''Momentum'' =
   searchResults [(''a'', ''x\<newline>MOMENTUM factor'')] ''momentum'' \<and>
   searchResults [(''a'', ''x\<newline>MOMENTUM factor'')] ''momentum'' =
     [\<lparr>hit_file = ''a'', hit_line = 2, hit_match = ''x\<newline>MOMENTUM factor''\<rparr>]"
proof -
  have h: "toLowerCase ''Momentum'' = toLowerCase ''momentum''"
    by code_simp
  have r: "searchResults [(''a'', ''x\<newline>MOMENTUM factor'')] ''momentum'' =
     [\<lparr>hit_file = ''a'', hit_line = 2, hit_match = ''x\<newline>MOMENTUM factor''\<rparr>]"
    by code_simp
  from search_case_insensitive[where ?q1.0 = "''Momentum''" and ?q2.0 = "''momentum''"
      and DOCS = "[(''a'', ''x\<newline>MOMENTUM factor'')]"] h r
  show ?thesis
    by blast
qed

text \<open>
  Claim C10. A query that contains a newline has no hits, whatever the documents hold: the
  lines come from splitting at newlines, so no line contains the query, even when the whole
  text of a document does and the document passes the filter before the scan.
\<close>

theorem search_newline_query_no_results:
  "CHR ''\<newline>'' \<in> set query \<longrightarrow>
     searchDocs DOCS query = ''No results found for '' @ [QUOTE] @ query @ [QUOTE]"
  by (simp add: searchDocs_eq searchResults_newline_query)

text \<open>The text of the document contains the query, across two lines.\<close>

theorem search_newline_query_no_results_witness:
  "CHR ''\<newline>'' \<in> set ''x\<newline>y'' \<and>
   includes_str (toLowerCase ''a x\<newline>y b'') (toLowerCase ''x\<newline>y'') \<and>
   searchDocs [(''a'', ''a x\<newline>y b'')] ''x\<newline>y'' = ''No results found for '' @ [QUOTE] @ ''x\<newline>y'' @ [QUOTE]"
proof -
  have h: "CHR ''\<newline>'' \<in> set ''x\<newline>y''"
    by simp
  have p: "includes_str (toLowerCase ''a x\<newline>y b'') (toLowerCase ''x\<newline>y'')"
    by code_simp
  from search_newline_query_no_results[of "''x\<newline>y''" "[(''a'', ''a x\<newline>y b'')]"] h p
  show ?thesis
    by blast
qed

subsection \<open>The example filter\<close>




subsection \<open>The dispatch\<close>




text \<open>
  Claim C1. Every envelope that \<^verbatim>\<open>handleMcpRequest\<close> returns carries the correlation
  identifier of the request and holds exactly one of a result and an error, never both and
  never neither. An envelope is returned for every request whose method is not
  \<^verbatim>\<open>tools/call\<close>, and for \<^verbatim>\<open>tools/call\<close> whenever the parameters are present and the tool
  call returns.
\<close>

theorem handleMcpRequest_envelope:
  "(handleMcpRequest DOCS request = Inr response \<longrightarrow>
      resp_id response = req_id request \<and>
      (resp_result response = None) \<noteq> (resp_error response = None)) \<and>
   (req_method request \<noteq> ''tools/call'' \<longrightarrow>
      (\<exists>response. handleMcpRequest DOCS request = Inr response)) \<and>
   (req_method request = ''tools/call'' \<and> req_params request = Some p \<and>
    handleToolCall DOCS (params_name p)
      (case params_arguments p of None \<Rightarrow> Map.empty | Some a \<Rightarrow> a) = Inr text \<longrightarrow>
      (\<exists>response. handleMcpRequest DOCS request = Inr response))"
proof (intro conjI impI)
  assume "handleMcpRequest DOCS request = Inr response"
  then have "resp_id response = req_id request \<and>
      (resp_result response = None) \<noteq> (resp_error response = None) \<and>
      (resp_error response \<noteq> None \<longleftrightarrow>
         req_method request \<notin> {''initialize'', ''tools/list'', ''tools/call''})"
    by (rule handleMcpRequest_result_or_error)
  then show "resp_id response = req_id request"
    and "(resp_result response = None) \<noteq> (resp_error response = None)"
    by simp_all
next
  assume "req_method request \<noteq> ''tools/call''"
  then show "\<exists>response. handleMcpRequest DOCS request = Inr response"
    by (rule handleMcpRequest_returns)
next
  assume "req_method request = ''tools/call'' \<and> req_params request = Some p \<and>
    handleToolCall DOCS (params_name p)
      (case params_arguments p of None \<Rightarrow> Map.empty | Some a \<Rightarrow> a) = Inr text"
  then show "\<exists>response. handleMcpRequest DOCS request = Inr response"
    using handleMcpRequest_tools_call by blast
qed

text \<open>A tool call and an unknown method, both with identifier 7.\<close>

theorem handleMcpRequest_envelope_witness:
  "handleMcpRequest [(''a'', ''x'')]
     \<lparr>req_id = (7::int), req_method = ''tools/call'',
      req_params = Some \<lparr>params_name = JStr ''list_documents'', params_arguments = None\<rparr>\<rparr> =
     Inr \<lparr>resp_jsonrpc = ''2.0'', resp_id = 7,
          resp_result = Some (ToolCallResult
            [\<lparr>content_type = ''text'',
              content_text = ''## Available FinLab Documents\<newline>\<newline>- **a**: x''\<rparr>]),
          resp_error = None\<rparr> \<and>
   resp_id \<lparr>resp_jsonrpc = ''2.0'', resp_id = (7::int),
          resp_result = Some (ToolCallResult
            [\<lparr>content_type = ''text'',
              content_text = ''## Available FinLab Documents\<newline>\<newline>- **a**: x''\<rparr>]),
          resp_error = None\<rparr> = 7 \<and>
   (\<exists>response. handleMcpRequest [(''a'', ''x'')]
      \<lparr>req_id = (7::int), req_method = ''ping'', req_params = None\<rparr> = Inr response)"
proof -
  let ?rq = "\<lparr>req_id = (7::int), req_method = ''tools/call'',
      req_params = Some \<lparr>params_name = JStr ''list_documents'', params_arguments = None\<rparr>\<rparr>"
  let ?rs = "\<lparr>resp_jsonrpc = ''2.0'', resp_id = (7::int),
          resp_result = Some (ToolCallResult
            [\<lparr>content_type = ''text'',
              content_text = ''## Available FinLab Documents\<newline>\<newline>- **a**: x''\<rparr>]),
          resp_error = None\<rparr>"
  have l: "listDocuments [(''a'', ''x'')] = ''## Available FinLab Documents\<newline>\<newline>- **a**: x''"
    by code_simp
  have h: "handleMcpRequest [(''a'', ''x'')] ?rq = Inr ?rs"
    by (simp add: handleMcpRequest_def handleToolCall_def l)
  have m: "req_method \<lparr>req_id = (7::int), req_method = ''ping'', req_params = None\<rparr> \<noteq> ''tools/call''"
    by simp
  from handleMcpRequest_envelope[where DOCS = "[(''a'', ''x'')]" and request = ?rq and response = ?rs] h
  have "resp_id ?rs = req_id ?rq"
    by blast
  moreover from handleMcpRequest_envelope[where DOCS = "[(''a'', ''x'')]"
      and request = "\<lparr>req_id = (7::int), req_method = ''ping'', req_params = None\<rparr>"] m
  have "\<exists>response. handleMcpRequest [(''a'', ''x'')]
      \<lparr>req_id = (7::int), req_method = ''ping'', req_params = None\<rparr> = Inr response"
    by blast
  ultimately show ?thesis
    using h by simp
qed



end
